theory Spec2Isabelle
  imports Main "HOL-Library.Sublist"
begin

section \<open>PlantumlSvgPatcher: patching bare \<open>\ref\<close> links in SVG text\<close>

text \<open>
  A shallow embedding of \<^verbatim>\<open>src/plantumlsvgpatcher.cpp\<close>. A \<^verbatim>\<open>QCString\<close> is a
  \<^typ>\<open>string\<close> (a list of bytes); offsets are \<^typ>\<open>int\<close> with \<open>-1\<close> for "not found",
  as in the source. 32-bit wrap-around is left out (buffers are far below \<open>2^31\<close> bytes),
  and a buffer is taken to hold no NUL byte, where the string searches of the source would
  stop.
\<close>

subsection \<open>The string library used by the patcher\<close>

text \<open>
  Modelled from the spec: \<^verbatim>\<open>QCString::find(const char *, int)\<close> (qcstring.h/.cpp are not
  under src/). Spec 4.1/4.2: a pure substring search for a literal needle at or after a
  start offset, reporting "not found" as \<open>-1\<close>. An index outside the string finds nothing.
\<close>

fun strstr :: "string \<Rightarrow> string \<Rightarrow> nat option" where
  "strstr [] str = (if str = [] then Some 0 else None)"
| "strstr (c # cs) str =
     (if prefix str (c # cs) then Some 0 else map_option Suc (strstr cs str))"

definition find :: "string \<Rightarrow> string \<Rightarrow> int \<Rightarrow> int" where
  "find s str index =
     (if index < 0 \<or> index \<ge> int (length s) then -1
      else case strstr (drop (nat index) s) str of
             None \<Rightarrow> -1
           | Some k \<Rightarrow> index + int k)"

text \<open>
  Modelled from the spec: \<^verbatim>\<open>QCString::find(char, int)\<close>, the forward scan for the next
  \<^verbatim>\<open>>\<close> of spec 4.2 (qcstring.h is not under src/).
\<close>

definition findChar :: "string \<Rightarrow> char \<Rightarrow> int \<Rightarrow> int" where
  "findChar s c index = find s [c] index"

text \<open>
  Modelled from the spec: \<^verbatim>\<open>QCString::findRev(const char *, int)\<close>, the backward textual
  scan of spec 4.2 for the nearest needle starting at or before the given offset
  (qcstring.cpp is not under src/). A negative index, or one too close to the end, starts
  at the last position where the needle still fits.
\<close>

fun findRevFrom :: "string \<Rightarrow> string \<Rightarrow> nat \<Rightarrow> int" where
  "findRevFrom s str 0 = (if prefix str s then 0 else -1)"
| "findRevFrom s str (Suc i) =
     (if prefix str (drop (Suc i) s) then int (Suc i) else findRevFrom s str i)"

definition findRev :: "string \<Rightarrow> string \<Rightarrow> int \<Rightarrow> int" where
  "findRev s str index =
     (let slen = int (length str); len = int (length s) in
      if index \<ge> 0 \<and> index > len then -1
      else
        let i0 = (if index < 0 \<or> index + slen > len then len - slen else index) in
        if i0 < 0 then -1 else findRevFrom s str (nat i0))"

text \<open>
  Modelled from the spec: \<^verbatim>\<open>QCString::findRev(char)\<close> with its default index, the offset
  of the final occurrence of a character ("the final \<^verbatim>\<open>>\<close> of the opening tag", spec 4.4).
\<close>

definition findRevChar :: "string \<Rightarrow> char \<Rightarrow> int" where
  "findRevChar s c = findRev s [c] (-1)"

text \<open>
  Modelled from the spec: \<^verbatim>\<open>QCString::mid\<close> and \<^verbatim>\<open>QCString::left\<close> (qcstring.h is not
  under src/): the sub-buffer of a given length at a given offset, the rest of the buffer
  from an offset, and the first bytes of a buffer. The arguments are unsigned in the
  source, so a negative offset lies beyond every buffer and a negative length is longer
  than every buffer.
\<close>

definition mid :: "string \<Rightarrow> int \<Rightarrow> int \<Rightarrow> string" where
  "mid s index len =
     (if index < 0 \<or> index > int (length s) \<or> len = 0 then []
      else if len < 0 then drop (nat index) s
      else take (nat len) (drop (nat index) s))"

definition midFrom :: "string \<Rightarrow> int \<Rightarrow> string" where
  "midFrom s index =
     (if index < 0 \<or> index > int (length s) then [] else drop (nat index) s)"

definition left :: "string \<Rightarrow> int \<Rightarrow> string" where
  "left s len = (if len < 0 then s else take (nat len) s)"

text \<open>
  Modelled from the spec: \<^verbatim>\<open>QCString::stripWhiteSpace\<close> (qcstring.h is not under src/):
  "leading/trailing whitespace removed" (spec 4.3); whitespace is space, tab, newline and
  carriage return.
\<close>

definition qisspace :: "char \<Rightarrow> bool" where
  "qisspace c = (c = CHR '' '' \<or> c = CHR 0x09 \<or> c = CHR 0x0A \<or> c = CHR 0x0D)"

definition stripWhiteSpace :: "string \<Rightarrow> string" where
  "stripWhiteSpace s = rev (dropWhile qisspace (rev (dropWhile qisspace s)))"

text \<open>
  Modelled from the spec: \<^verbatim>\<open>substitute(s, src, dst)\<close> (util.cpp is not under src/):
  every occurrence of \<open>src\<close> in \<open>s\<close>, found from left to right without overlap, is replaced
  by \<open>dst\<close> ("each present placeholder attribute is replaced", spec 4.4).
\<close>

function substitute :: "string \<Rightarrow> string \<Rightarrow> string \<Rightarrow> string" where
  "substitute s src dst =
     (if s = [] \<or> src = [] then s
      else if prefix src s then dst @ substitute (drop (length src) s) src dst
      else hd s # substitute (tl s) src dst)"
  by pat_completeness auto
termination
  by (relation "measure (\<lambda>(s, src, dst). length s)") (auto simp: neq_Nil_conv)

declare substitute.simps [simp del]

text \<open>
  Modelled from the spec: \<^verbatim>\<open>reg::search\<close> with the pattern
  \<^verbatim>\<open><text[^>]*>([^<]+)</text>\<close> (regex.cpp is not under src/). Spec 4.3: the first
  occurrence of a caption element: its opening tag with arbitrary attributes, a non-empty
  text without nested markup, and the closing tag; the text is capture group 1.
  \<open>matchTextAt\<close> matches the pattern at the start of a buffer, \<open>regSearch\<close> tries every
  start offset from left to right.
\<close>

definition matchTextAt :: "string \<Rightarrow> string option" where
  \<open>matchTextAt s =
     (if prefix ''<text'' s then
        (case dropWhile (\<lambda>c. c \<noteq> CHR ''>'') (drop 5 s) of
           [] \<Rightarrow> None
         | _ # r \<Rightarrow>
             (let cap = takeWhile (\<lambda>c. c \<noteq> CHR ''<'') r;
                  rest = dropWhile (\<lambda>c. c \<noteq> CHR ''<'') r
              in if cap \<noteq> [] \<and> prefix ''</text>'' rest then Some cap else None))
      else None)\<close>

fun regSearch :: "string \<Rightarrow> string option" where
  "regSearch [] = None"
| "regSearch (c # cs) =
     (case matchTextAt (c # cs) of
        Some cap \<Rightarrow> Some cap
      | None \<Rightarrow> regSearch cs)"

subsection \<open>The reference resolver\<close>

text \<open>
  The descriptor of a resolved reference (\<^verbatim>\<open>DocRef\<close>): its file, its anchor and the
  external-project marker (\<^verbatim>\<open>file()\<close>, \<^verbatim>\<open>anchor()\<close>, \<^verbatim>\<open>ref()\<close>). The patcher object
  carries the relative path and the resolution context; the services it calls are
  parameters: \<^verbatim>\<open>createRef\<close> (a null AST or a root that is no \<^verbatim>\<open>DocRef\<close> is \<open>None\<close>),
  \<^verbatim>\<open>externalRef\<close> with its third argument fixed to \<^verbatim>\<open>TRUE\<close>, and the HTML extension.
\<close>

record docref =
  df_file :: string
  df_anchor :: string
  df_ref :: string

record patcher =
  m_relPath :: string
  m_context :: string
  createRef :: "string \<Rightarrow> string \<Rightarrow> docref option"
  externalRef :: "string \<Rightarrow> string \<Rightarrow> string"
  extensionMissing :: "string \<Rightarrow> bool"
  htmlFileExtension :: string

text \<open>
  Modelled from the spec: \<^verbatim>\<open>addHtmlExtensionIfMissing\<close> (util.cpp is not under src/):
  spec 6 writes the file part of the URL as \<open>file[+extension]\<close>; whether the extension is
  missing, and the extension itself, are parameters.
\<close>

definition addHtmlExtensionIfMissing :: "patcher \<Rightarrow> string \<Rightarrow> string" where
  "addHtmlExtensionIfMissing p fn =
     (if fn = [] then fn
      else if extensionMissing p fn then fn @ htmlFileExtension p else fn)"

definition resolveRefToUrl :: "patcher \<Rightarrow> string \<Rightarrow> string" where
  "resolveRefToUrl p refName =
     (case createRef p refName (m_context p) of
        None \<Rightarrow> []
      | Some df \<Rightarrow>
          if df_file df \<noteq> [] \<or> df_anchor df \<noteq> [] then
            externalRef p (m_relPath p) (df_ref df)
            @ (if df_file df \<noteq> [] then addHtmlExtensionIfMissing p (df_file df) else [])
            @ (if df_anchor df \<noteq> [] then CHR ''#'' # df_anchor df else [])
          else [])"

subsection \<open>Extracting the reference name\<close>

definition extractRefNameFromAnchorContent :: "string \<Rightarrow> string" where
  "extractRefNameFromAnchorContent anchorContent =
     (case regSearch anchorContent of
        Some m \<Rightarrow> stripWhiteSpace m
      | None \<Rightarrow> [])"

subsection \<open>Rewriting one opening tag\<close>

text \<open>
  The two spellings of the placeholder, \<^verbatim>\<open>href="\ref"\<close> and \<^verbatim>\<open>xlink:href="\ref"\<close>; the
  escaping of lines 160-161 and the handler of line 163. \<open>CHR 0x5C\<close> is the backslash,
  \<open>CHR 0x27\<close> the single quote.
\<close>

definition hrefRef :: string where
  \<open>hrefRef = ''href="'' @ [CHR 0x5C] @ ''ref"''\<close>

definition xlinkRef :: string where
  \<open>xlinkRef = ''xlink:href="'' @ [CHR 0x5C] @ ''ref"''\<close>

definition escapeRefName :: "string \<Rightarrow> string" where
  "escapeRefName refName =
     substitute (substitute refName [CHR 0x5C] [CHR 0x5C, CHR 0x5C]) [CHR 0x27] [CHR 0x5C, CHR 0x27]"

definition onclickHandler :: "string \<Rightarrow> string" where
  \<open>onclickHandler refName =
     ''window.parent.postMessage({type:'' @ [CHR 0x27] @ ''unresolved-ref'' @ [CHR 0x27]
     @ '',name:'' @ [CHR 0x27] @ escapeRefName refName @ [CHR 0x27] @ ''},''
     @ [CHR 0x27] @ ''*'' @ [CHR 0x27] @ '');return false;''\<close>

text \<open>
  Lines 149-198 of \<^verbatim>\<open>patchBareRefs\<close>: the new opening tag, from the old one, the
  reference name and the URL the resolver returned (empty: unresolved).
\<close>

definition newOpeningTag :: "string \<Rightarrow> string \<Rightarrow> string \<Rightarrow> string" where
  \<open>newOpeningTag openingTag refName url =
     (let hasHref = (find openingTag hrefRef 0 \<noteq> -1);
          hasXlinkHref = (find openingTag xlinkRef 0 \<noteq> -1)
      in if url = [] then
           (let t1 = (if hasHref then substitute openingTag hrefRef ''href="#"''
                      else openingTag);
                t2 = (if hasXlinkHref then substitute t1 xlinkRef ''xlink:href="#"''
                      else t1);
                closingBracket = findRevChar t2 CHR ''>''
            in if closingBracket \<noteq> -1 then
                 left t2 closingBracket @ '' onclick="'' @ onclickHandler refName @ ''"''
                 @ midFrom t2 closingBracket
               else t2)
         else
           (let t1 = (if hasHref then substitute openingTag hrefRef (''href="'' @ url @ ''"'')
                      else openingTag);
                t2 = (if hasXlinkHref
                      then substitute t1 xlinkRef (''xlink:href="'' @ url @ ''"'')
                      else t1)
            in t2))\<close>

subsection \<open>The patching loop\<close>

text \<open>
  Lines 86-99: the two searches from the cursor, and which of the two occurrences is
  handled; \<open>-1\<close> when neither spelling was found.
\<close>

definition selectRefPos :: "int \<Rightarrow> int \<Rightarrow> int" where
  "selectRefPos hrefPos xlinkPos =
     (if hrefPos \<noteq> -1 \<and> (xlinkPos = -1 \<or> hrefPos < xlinkPos) then hrefPos
      else if xlinkPos \<noteq> -1 then xlinkPos
      else -1)"

definition nextRefPos :: "string \<Rightarrow> int \<Rightarrow> int" where
  "nextRefPos result searchStart =
     (let hrefPos = find result hrefRef searchStart;
          xlinkPos = find result xlinkRef searchStart
      in selectRefPos hrefPos xlinkPos)"

text \<open>
  One iteration of the \<^verbatim>\<open>while (true)\<close> loop, on the buffer \<open>result\<close> and the cursor
  \<open>searchStart\<close>: \<open>Break\<close> leaves the loop, \<open>Skip\<close> is one of the four \<^verbatim>\<open>continue\<close>
  statements (the buffer is kept), \<open>Rewrite\<close> is the end of the loop body, with the new
  buffer and the new cursor.
\<close>

datatype iteration = Break | Skip int | Rewrite string int

definition patchStep :: "patcher \<Rightarrow> string \<Rightarrow> int \<Rightarrow> iteration" where
  "patchStep p result searchStart =
     (let refPos = nextRefPos result searchStart
      in if refPos = -1 then Break
         else
           let aTagStart = findRev result ''<a'' refPos in
           if aTagStart = -1 then Skip (refPos + 1)
           else
             let aTagClose = find result ''</a>'' refPos in
             if aTagClose = -1 then Skip (refPos + 1)
             else
               let aTagOpenEnd = findChar result CHR ''>'' aTagStart in
               if aTagOpenEnd = -1 \<or> aTagOpenEnd > aTagClose then Skip (refPos + 1)
               else
                 let openingTag = mid result aTagStart (aTagOpenEnd - aTagStart + 1);
                     anchorContent = mid result (aTagOpenEnd + 1) (aTagClose - aTagOpenEnd - 1);
                     refName = extractRefNameFromAnchorContent anchorContent
                 in if refName = [] then Skip (refPos + 1)
                    else
                      let url = resolveRefToUrl p refName;
                          newTag = newOpeningTag openingTag refName url
                      in Rewrite (left result aTagStart @ newTag @ midFrom result (aTagOpenEnd + 1))
                                 (aTagStart + int (length newTag)))"

text \<open>
  The local variables of one iteration, as functions of the buffer and the cursor at its
  start (lines 107, 115, 123, 131, 134 and 137), and the two parts of the buffer that line
  201 keeps: \<^verbatim>\<open>result.left(aTagStart)\<close> and \<^verbatim>\<open>result.mid(aTagOpenEnd + 1)\<close>. The theorems
  name the anchor an iteration handles through them.
\<close>

definition aTagStartAt :: "string \<Rightarrow> int \<Rightarrow> int" where
  "aTagStartAt result searchStart = findRev result ''<a'' (nextRefPos result searchStart)"

definition aTagCloseAt :: "string \<Rightarrow> int \<Rightarrow> int" where
  "aTagCloseAt result searchStart = find result ''</a>'' (nextRefPos result searchStart)"

definition aTagOpenEndAt :: "string \<Rightarrow> int \<Rightarrow> int" where
  "aTagOpenEndAt result searchStart =
     findChar result CHR ''>'' (aTagStartAt result searchStart)"

definition openingTagAt :: "string \<Rightarrow> int \<Rightarrow> string" where
  "openingTagAt result searchStart =
     mid result (aTagStartAt result searchStart)
       (aTagOpenEndAt result searchStart - aTagStartAt result searchStart + 1)"

definition anchorContentAt :: "string \<Rightarrow> int \<Rightarrow> string" where
  "anchorContentAt result searchStart =
     mid result (aTagOpenEndAt result searchStart + 1)
       (aTagCloseAt result searchStart - aTagOpenEndAt result searchStart - 1)"

definition refNameAt :: "string \<Rightarrow> int \<Rightarrow> string" where
  "refNameAt result searchStart =
     extractRefNameFromAnchorContent (anchorContentAt result searchStart)"

definition beforeTagAt :: "string \<Rightarrow> int \<Rightarrow> string" where
  "beforeTagAt result searchStart = left result (aTagStartAt result searchStart)"

definition afterTagAt :: "string \<Rightarrow> int \<Rightarrow> string" where
  "afterTagAt result searchStart = midFrom result (aTagOpenEndAt result searchStart + 1)"

text \<open>
  The loop itself may run forever, so its result is an option: \<open>None\<close> is "never
  returns".
\<close>

partial_function (option) patchLoop :: "patcher \<Rightarrow> string \<Rightarrow> int \<Rightarrow> string option" where
  "patchLoop p result searchStart =
     (case patchStep p result searchStart of
        Break \<Rightarrow> Some result
      | Skip searchStart' \<Rightarrow> patchLoop p result searchStart'
      | Rewrite result' searchStart' \<Rightarrow> patchLoop p result' searchStart')"

declare patchLoop.simps [code]

definition patchBareRefs :: "patcher \<Rightarrow> string \<Rightarrow> string option" where
  "patchBareRefs p content = patchLoop p content 0"

subsection \<open>The run operation\<close>

text \<open>
  The SVG file as the storage collaborator shows it: whether it opens for reading, whether
  it opens for writing, and its bytes. \<^verbatim>\<open>run\<close> returns its boolean and the file
  afterwards, or \<open>None\<close> when the patching loop never returns.
\<close>

record svgfile =
  opensForReading :: bool
  opensForWriting :: bool
  bytes :: string

definition run :: "patcher \<Rightarrow> svgfile \<Rightarrow> (bool \<times> svgfile) option" where
  "run p f =
     (if \<not> opensForReading f then Some (False, f)
      else
        let svgContent = bytes f in
        if find svgContent hrefRef 0 = -1 \<and> find svgContent xlinkRef 0 = -1
        then Some (True, f)
        else
          case patchBareRefs p svgContent of
            None \<Rightarrow> None
          | Some patchedContent \<Rightarrow>
              if \<not> opensForWriting f then Some (False, f)
              else Some (True, f\<lparr>bytes := patchedContent\<rparr>))"

subsection \<open>Two resolvers for concrete runs\<close>

text \<open>
  \<open>resolvingPatcher\<close> has a resolver that returns, for every name, the file \<open>foo\<close> of the
  same project with no anchor, so that every URL is \<open>foo.html\<close>;
  \<open>unresolvingPatcher\<close> has one that returns a descriptor without file and anchor.
\<close>

definition resolvingPatcher :: patcher where
  "resolvingPatcher =
     \<lparr>m_relPath = [], m_context = [],
      createRef = (\<lambda>refName context. Some \<lparr>df_file = ''foo'', df_anchor = [], df_ref = []\<rparr>),
      externalRef = (\<lambda>relPath r. []),
      extensionMissing = (\<lambda>fn. True),
      htmlFileExtension = ''.html''\<rparr>"

definition unresolvingPatcher :: patcher where
  "unresolvingPatcher =
     \<lparr>m_relPath = [], m_context = [],
      createRef = (\<lambda>refName context. Some \<lparr>df_file = [], df_anchor = [], df_ref = []\<rparr>),
      externalRef = (\<lambda>relPath r. []),
      extensionMissing = (\<lambda>fn. True),
      htmlFileExtension = ''.html''\<rparr>"

text \<open>
  Buffers for concrete runs: the anchor \<^verbatim>\<open><a href="\ref"><text>foo</text></a>\<close> of the
  spec's examples; \<^verbatim>\<open><a><text>x</text>href="\ref"</a>\<close>, with a placeholder after the opening
  tag; \<^verbatim>\<open><a href="\ref"><text>href="\ref"</text></a>\<close>, whose caption is itself a
  placeholder; and a buffer without placeholder.
\<close>

definition fooAnchor :: string where
  \<open>fooAnchor = ''<a '' @ hrefRef @ ''><text>foo</text></a>''\<close>

definition bodyRefBuffer :: string where
  \<open>bodyRefBuffer = ''<a><text>x</text>'' @ hrefRef @ ''</a>''\<close>

definition captionRefBuffer :: string where
  \<open>captionRefBuffer = ''<a '' @ hrefRef @ ''><text>'' @ hrefRef @ ''</text></a>''\<close>

definition plainSvg :: string where
  \<open>plainSvg = ''<svg><a href="x.html"><text>x</text></a></svg>''\<close>


text \<open>
  What the spec's examples expect for \<open>fooAnchor\<close>: the unresolved fallback and the
  resolved round trip.
\<close>

definition fooUnresolved :: string where
  \<open>fooUnresolved =
     ''<a href="#" onclick="window.parent.postMessage({type:'' @ [CHR 0x27]
     @ ''unresolved-ref'' @ [CHR 0x27] @ '',name:'' @ [CHR 0x27] @ ''foo'' @ [CHR 0x27]
     @ ''},'' @ [CHR 0x27] @ ''*'' @ [CHR 0x27]
     @ '');return false;"><text>foo</text></a>''\<close>








text \<open>
  The buffer \<open>bodyRefBuffer\<close> is \<^verbatim>\<open><a>\<close> followed by \<open>bodyRefRest\<close>; \<open>xOnclick\<close> is the
  onclick attribute the unresolved branch adds for the name \<open>x\<close>.
\<close>

definition bodyRefRest :: string where
  \<open>bodyRefRest = ''<text>x</text>'' @ hrefRef @ ''</a>''\<close>

definition xOnclick :: string where
  \<open>xOnclick = '' onclick="'' @ onclickHandler ''x'' @ ''"''\<close>

text \<open>
  \<open>bodyRefBuffer\<close> with one onclick attribute in its opening tag, and with two.
\<close>

definition onceRewritten :: string where
  \<open>onceRewritten = ''<a onclick="window.parent.postMessage({type:'' @ [CHR 0x27]
     @ ''unresolved-ref'' @ [CHR 0x27] @ '',name:'' @ [CHR 0x27] @ ''x'' @ [CHR 0x27] @ ''},''
     @ [CHR 0x27] @ ''*'' @ [CHR 0x27] @ '');return false;"><text>x</text>'' @ hrefRef @ ''</a>''\<close>

definition twiceRewrittenTag :: string where
  \<open>twiceRewrittenTag = ''<a onclick="window.parent.postMessage({type:'' @ [CHR 0x27]
     @ ''unresolved-ref'' @ [CHR 0x27] @ '',name:'' @ [CHR 0x27] @ ''x'' @ [CHR 0x27] @ ''},''
     @ [CHR 0x27] @ ''*'' @ [CHR 0x27]
     @ '');return false;" onclick="window.parent.postMessage({type:'' @ [CHR 0x27]
     @ ''unresolved-ref'' @ [CHR 0x27] @ '',name:'' @ [CHR 0x27] @ ''x'' @ [CHR 0x27] @ ''},''
     @ [CHR 0x27] @ ''*'' @ [CHR 0x27] @ '');return false;">''\<close>

definition twiceRewritten :: string where
  \<open>twiceRewritten = twiceRewrittenTag @ ''<text>x</text>'' @ hrefRef @ ''</a>''\<close>

section \<open>Facts about the string library\<close>

subsection \<open>Searching\<close>

lemma sublist_iff_drop: "sublist n s \<longleftrightarrow> (\<exists>i. prefix n (drop i s))"
proof
  assume "sublist n s"
  then obtain ps ss where "s = ps @ n @ ss" by (auto simp: sublist_def)
  then have "prefix n (drop (length ps) s)" by simp
  then show "\<exists>i. prefix n (drop i s)" ..
next
  assume "\<exists>i. prefix n (drop i s)"
  then obtain i zs where "drop i s = n @ zs" by (auto simp: prefix_def)
  then have "s = take i s @ n @ zs" by (metis append_take_drop_id)
  then show "sublist n s" by (metis sublist_appendI)
qed

lemma strstr_None_iff: "strstr s n = None \<longleftrightarrow> \<not> sublist n s"
  by (induction s) (auto simp: sublist_Cons_right)

lemma strstr_Some:
  "strstr s n = Some k \<Longrightarrow>
     prefix n (drop k s) \<and> k \<le> length s \<and> (\<forall>j<k. \<not> prefix n (drop j s))"
proof (induction s arbitrary: k)
  case Nil
  then show ?case by (simp split: if_splits)
next
  case (Cons c cs)
  show ?case
  proof (cases "prefix n (c # cs)")
    case True
    with Cons.prems show ?thesis by simp
  next
    case False
    with Cons.prems obtain k' where k': "strstr cs n = Some k'" "k = Suc k'" by auto
    from Cons.IH [OF k'(1)] False k'(2) show ?thesis
      by (auto simp: less_Suc_eq_0_disj)
  qed
qed

lemma prefix_drop_fits: "prefix n (drop k s) \<Longrightarrow> k \<le> length s \<Longrightarrow> k + length n \<le> length s"
  by (drule prefix_length_le) simp

lemma find_notfound_iff:
  assumes "0 \<le> i" "str \<noteq> []"
  shows "find s str i = -1 \<longleftrightarrow> \<not> sublist str (drop (nat i) s)"
proof (cases "i \<ge> int (length s)")
  case True
  with assms show ?thesis by (simp add: find_def)
next
  case False
  with assms show ?thesis
    by (auto simp: find_def strstr_None_iff [symmetric] split: option.splits)
qed

lemma find_found:
  assumes "find s str i = r" "r \<noteq> -1"
  shows "0 \<le> i \<and> i \<le> r \<and> r < int (length s) + (if str = [] then 1 else 0)
         \<and> nat r + length str \<le> length s
         \<and> prefix str (drop (nat r) s)
         \<and> (\<forall>j. nat i \<le> j \<and> j < nat r \<longrightarrow> \<not> prefix str (drop j s))"
proof -
  from assms have i: "0 \<le> i" "i < int (length s)"
    by (auto simp: find_def split: if_splits)
  with assms obtain k where k: "strstr (drop (nat i) s) str = Some k" "r = i + int k"
    by (auto simp: find_def split: option.splits)
  from strstr_Some [OF k(1)]
  have p: "prefix str (drop (k + nat i) s)" and le: "k \<le> length s - nat i"
    and least: "\<forall>j<k. \<not> prefix str (drop (j + nat i) s)"
    by (simp_all add: add.commute)
  from i k(2) have r: "nat r = k + nat i" by simp
  have "\<forall>j. nat i \<le> j \<and> j < nat r \<longrightarrow> \<not> prefix str (drop j s)"
  proof (intro allI impI)
    fix j assume j: "nat i \<le> j \<and> j < nat r"
    then have "j - nat i < k" using r by linarith
    with least have "\<not> prefix str (drop ((j - nat i) + nat i) s)" by blast
    with j show "\<not> prefix str (drop j s)" by simp
  qed
  moreover from p le i have "k + nat i + length str \<le> length s"
    by (intro prefix_drop_fits) simp_all
  moreover have "r < int (length s) + (if str = [] then 1 else 0)"
    using \<open>k + nat i + length str \<le> length s\<close> r i k(2) by (cases str) auto
  ultimately show ?thesis using i k(2) p r by simp
qed

subsection \<open>Substitution\<close>

lemma substitute_Nil [simp]: "substitute [] src dst = []"
  by (simp add: substitute.simps)

lemma substitute_match:
  "src \<noteq> [] \<Longrightarrow> substitute (src @ t) src dst = dst @ substitute t src dst"
  by (subst substitute.simps) simp

lemma substitute_skip:
  "\<not> prefix src (c # t) \<Longrightarrow> substitute (c # t) src dst = c # substitute t src dst"
  by (subst substitute.simps) (auto simp: substitute.simps [of t "[]"])

lemma substitute_single_char:
  "substitute s [c] dst = concat (map (\<lambda>x. if x = c then dst else [x]) s)"
proof (induction s)
  case Nil
  show ?case by simp
next
  case (Cons x xs)
  show ?case
  proof (cases "x = c")
    case True
    then show ?thesis using substitute_match [of "[c]" xs dst] Cons.IH by simp
  next
    case False
    then show ?thesis using substitute_skip [of "[c]" x xs dst] Cons.IH by simp
  qed
qed

lemma substitute_absent: "\<not> sublist src s \<Longrightarrow> substitute s src dst = s"
proof (induction s)
  case Nil
  show ?case by simp
next
  case (Cons x xs)
  then have "\<not> prefix src (x # xs)" "\<not> sublist src xs"
    by (auto simp: sublist_Cons_right)
  with Cons.IH show ?case by (simp add: substitute_skip)
qed

lemma substitute_prefix_back:
  assumes "src = h # rest" "dst = h # drest" "h \<notin> set P" "prefix P (substitute t src dst)"
  shows "prefix P t"
  using assms(3,4)
proof (induction P arbitrary: t)
  case Nil
  show ?case by simp
next
  case (Cons c P')
  then have ch: "c \<noteq> h" and hP: "h \<notin> set P'" by auto
  show ?case
  proof (cases t)
    case Nil
    with Cons.prems show ?thesis by simp
  next
    case (Cons x t')
    show ?thesis
    proof (cases "prefix src t")
      case True
      then obtain t'' where "t = src @ t''" by (auto simp: prefix_def)
      then have "substitute t src dst = h # drest @ substitute t'' src dst"
        using assms(1,2) substitute_match [of src t'' dst] by simp
      with Cons.prems(2) ch show ?thesis by simp
    next
      case False
      then have "substitute t src dst = x # substitute t' src dst"
        using Cons by (simp add: substitute_skip)
      with Cons.prems(2) have "c = x" "prefix P' (substitute t' src dst)" by simp_all
      with Cons.IH [OF hP] Cons show ?thesis by simp
    qed
  qed
qed

lemma substitute_no_src:
  assumes src: "src = h # rest" "h \<notin> set rest" and dst: "dst = h # drest"
    and inside: "\<And>i x. i < length dst \<Longrightarrow> \<not> prefix src (drop i dst @ x)"
  shows "\<not> sublist src (substitute t src dst)"
proof (induction "length t" arbitrary: t rule: less_induct)
  case less
  show ?case
  proof (cases t)
    case Nil
    with src show ?thesis by simp
  next
    case (Cons x t')
    show ?thesis
    proof (cases "prefix src t")
      case True
      then obtain t'' where t'': "t = src @ t''" by (auto simp: prefix_def)
      then have eq: "substitute t src dst = dst @ substitute t'' src dst"
        using src substitute_match [of src t'' dst] by simp
      from t'' src have "length t'' < length t" by simp
      then have IH: "\<not> sublist src (substitute t'' src dst)" by (rule less)
      show ?thesis
      proof
        assume "sublist src (substitute t src dst)"
        then obtain i where i: "prefix src (drop i (dst @ substitute t'' src dst))"
          unfolding eq sublist_iff_drop by blast
        show False
        proof (cases "i < length dst")
          case True
          with i inside [OF True] show False by simp
        next
          case False
          with i have "prefix src (drop (i - length dst) (substitute t'' src dst))" by simp
          with IH show False unfolding sublist_iff_drop by blast
        qed
      qed
    next
      case False
      then have eq: "substitute t src dst = x # substitute t' src dst"
        using Cons by (simp add: substitute_skip)
      from Cons have "length t' < length t" by simp
      then have IH: "\<not> sublist src (substitute t' src dst)" by (rule less)
      show ?thesis
      proof
        assume "sublist src (substitute t src dst)"
        with IH eq have "prefix src (x # substitute t' src dst)"
          by (simp add: sublist_Cons_right)
        then have xh: "x = h" and pr: "prefix rest (substitute t' src dst)"
          unfolding src(1) by auto
        from substitute_prefix_back [OF src(1) dst src(2) pr] have "prefix rest t'" .
        with xh have "prefix src t" unfolding src(1) Cons by simp
        with False show False by simp
      qed
    qed
  qed
qed




lemma substitute_empty_src: "substitute t [] dst = t"
  by (subst substitute.simps) simp

lemma substitute_snoc:
  assumes "c \<notin> set src"
  shows "substitute (t @ [c]) src dst = substitute t src dst @ [c]"
proof (induction "length t" arbitrary: t rule: less_induct)
  case less
  show ?case
  proof (cases t)
    case Nil
    have "src = [] \<or> \<not> prefix src [c]" using assms by (cases src) auto
    then show ?thesis unfolding Nil
      by (auto simp: substitute_empty_src substitute_skip)
  next
    case (Cons x t')
    show ?thesis
    proof (cases "src = []")
      case True
      then show ?thesis by (simp add: substitute_empty_src)
    next
      case ne: False
      show ?thesis
      proof (cases "prefix src t")
        case True
        then obtain t'' where t'': "t = src @ t''" by (auto simp: prefix_def)
        with ne have "length t'' < length t" by simp
        from less [OF this] t'' ne show ?thesis
          using substitute_match [of src "t'' @ [c]" dst] substitute_match [of src t'' dst]
          by simp
      next
        case False
        have "\<not> prefix src (t @ [c])"
        proof
          assume "prefix src (t @ [c])"
          with False have "src = t @ [c]" by (simp add: prefix_snoc)
          with assms show False by simp
        qed
        moreover from Cons have "length t' < length t" by simp
        ultimately show ?thesis using less [of t'] False Cons
          by (simp add: substitute_skip)
      qed
    qed
  qed
qed

lemma findRevFrom_hit: "prefix str (drop i s) \<Longrightarrow> findRevFrom s str i = int i"
  by (cases i) simp_all

lemma findRevChar_snoc: "findRevChar (t @ [c]) c = int (length t)"
  by (simp add: findRevChar_def findRev_def findRevFrom_hit)

section \<open>Facts about one rewritten opening tag\<close>

lemma hrefRef_Cons: \<open>hrefRef = CHR ''h'' # ''ref="'' @ [CHR 0x5C] @ ''ref"''\<close>
  by (simp add: hrefRef_def)

lemma hrefRef_h_once: \<open>CHR ''h'' \<notin> set (''ref="'' @ [CHR 0x5C] @ ''ref"'')\<close>
  by simp

lemma xlinkRef_eq: "xlinkRef = ''xlink:'' @ hrefRef"
  by (simp add: xlinkRef_def hrefRef_def)

lemma sublist_xlink_href: "sublist xlinkRef t \<Longrightarrow> sublist hrefRef t"
  unfolding xlinkRef_eq sublist_def by (metis append.assoc)

lemma hasHref_iff: "find t hrefRef 0 \<noteq> -1 \<longleftrightarrow> sublist hrefRef t"
  using find_notfound_iff [of 0 hrefRef t] by (simp add: hrefRef_def)

lemma hasXlinkHref_iff: "find t xlinkRef 0 \<noteq> -1 \<longleftrightarrow> sublist xlinkRef t"
  using find_notfound_iff [of 0 xlinkRef t] by (simp add: xlinkRef_def)

lemma inside_hash:
  assumes \<open>i < length ''href="#"''\<close>
  shows \<open>\<not> prefix hrefRef (drop i ''href="#"'' @ x)\<close>
proof -
  from assms have "i = 0 \<or> i = 1 \<or> i = 2 \<or> i = 3 \<or> i = 4 \<or> i = 5 \<or> i = 6 \<or> i = 7"
    by auto
  then show ?thesis
    by (elim disjE) (simp_all add: hrefRef_def)
qed



lemma substitute_hash_no_href: \<open>\<not> sublist hrefRef (substitute t hrefRef ''href="#"'')\<close>
  by (rule substitute_no_src [OF hrefRef_Cons hrefRef_h_once _ inside_hash]) simp_all



lemma newOpeningTag_unresolved:
  \<open>newOpeningTag (body @ ''>'') n [] =
     substitute body hrefRef ''href="#"'' @ '' onclick="'' @ onclickHandler n @ ''">''\<close>
proof -
  let ?tag = \<open>body @ ''>''\<close>
  let ?s = \<open>substitute body hrefRef ''href="#"''\<close>
  have sn: \<open>substitute ?tag hrefRef ''href="#"'' = ?s @ ''>''\<close>
    by (rule substitute_snoc) (simp add: hrefRef_def)
  have \<open>?tag = substitute ?tag hrefRef ''href="#"''\<close> if "\<not> sublist hrefRef ?tag"
    using substitute_absent [OF that] by simp
  then have t1: \<open>(if sublist hrefRef ?tag then substitute ?tag hrefRef ''href="#"'' else ?tag) = ?s @ ''>''\<close>
    unfolding sn [symmetric] by simp
  have "\<not> sublist xlinkRef (?s @ ''>'')"
    using substitute_hash_no_href [of ?tag] sublist_xlink_href unfolding sn by blast
  then have t2: \<open>substitute (?s @ ''>'') xlinkRef ''xlink:href="#"'' = ?s @ ''>''\<close>
    by (rule substitute_absent)
  show ?thesis
    unfolding newOpeningTag_def Let_def hasHref_iff hasXlinkHref_iff t1
    by (simp add: t2 findRevChar_snoc left_def midFrom_def del: append.simps)
qed




lemma resolveRefToUrl_none:
  "resolveRefToUrl unresolvingPatcher n = []"
  by (simp add: resolveRefToUrl_def unresolvingPatcher_def)

section \<open>Facts about one iteration\<close>

lemma findRevFrom_found:
  "findRevFrom s str n = r \<Longrightarrow> r \<noteq> -1 \<Longrightarrow>
     0 \<le> r \<and> r \<le> int n \<and> prefix str (drop (nat r) s)"
  by (induction n) (auto split: if_splits simp: nat_add_distrib)

lemma findRev_found:
  assumes "findRev s str i = r" "r \<noteq> -1"
  shows "0 \<le> r \<and> r \<le> int (length s) \<and> prefix str (drop (nat r) s)"
proof -
  from assms obtain n where n: "findRevFrom s str n = r" "int n \<le> int (length s)"
    by (auto simp: findRev_def Let_def split: if_splits intro: that [of "nat _"])
  from findRevFrom_found [OF n(1) assms(2)] n(2) show ?thesis by simp
qed

lemma no_char_before:
  assumes "\<forall>j. a \<le> j \<and> j < e \<longrightarrow> \<not> prefix [c] (drop j s)" "e \<le> length s"
  shows "c \<notin> set (take (e - a) (drop a s))"
proof
  assume "c \<in> set (take (e - a) (drop a s))"
  then obtain k where k: "k < length (take (e - a) (drop a s))" "take (e - a) (drop a s) ! k = c"
    by (auto simp: in_set_conv_nth)
  then have kk: "k < e - a" "a + k < length s" "s ! (a + k) = c" using assms(2) by auto
  then have "drop (a + k) s = c # drop (Suc (a + k)) s" by (metis Cons_nth_drop_Suc)
  then have "prefix [c] (drop (a + k) s)" by simp
  moreover from kk have "a \<le> a + k \<and> a + k < e" by simp
  ultimately show False using assms(1) by blast
qed

lemma tag_starts_with_a:
  assumes \<open>prefix ''<a'' (body @ ''>'' @ post)\<close>
  shows \<open>prefix ''<a'' body\<close>
proof (cases body)
  case Nil
  with assms show ?thesis by simp
next
  case (Cons x b')
  with assms show ?thesis by (cases b') simp_all
qed

lemma patchStep_vars:
  "patchStep p result c =
     (if nextRefPos result c = -1 then Break
      else if aTagStartAt result c = -1 then Skip (nextRefPos result c + 1)
      else if aTagCloseAt result c = -1 then Skip (nextRefPos result c + 1)
      else if aTagOpenEndAt result c = -1 \<or> aTagOpenEndAt result c > aTagCloseAt result c
           then Skip (nextRefPos result c + 1)
      else if refNameAt result c = [] then Skip (nextRefPos result c + 1)
      else Rewrite
             (beforeTagAt result c
              @ newOpeningTag (openingTagAt result c) (refNameAt result c)
                  (resolveRefToUrl p (refNameAt result c))
              @ afterTagAt result c)
             (aTagStartAt result c
              + int (length (newOpeningTag (openingTagAt result c) (refNameAt result c)
                               (resolveRefToUrl p (refNameAt result c))))))"
  by (simp add: patchStep_def Let_def aTagStartAt_def aTagCloseAt_def aTagOpenEndAt_def
      openingTagAt_def anchorContentAt_def refNameAt_def beforeTagAt_def afterTagAt_def)

lemma patchStep_Rewrite:
  assumes "patchStep p result c = Rewrite r' c'"
  obtains body where
    \<open>openingTagAt result c = body @ ''>''\<close>
    \<open>result = beforeTagAt result c @ body @ ''>'' @ afterTagAt result c\<close>
    \<open>prefix ''<a'' body\<close>
    \<open>CHR ''>'' \<notin> set body\<close>
    \<open>refNameAt result c \<noteq> []\<close>
    \<open>r' = beforeTagAt result c
          @ newOpeningTag (body @ ''>'') (refNameAt result c)
              (resolveRefToUrl p (refNameAt result c))
          @ afterTagAt result c\<close>
    \<open>c' = int (length (beforeTagAt result c))
          + int (length (newOpeningTag (body @ ''>'') (refNameAt result c)
                           (resolveRefToUrl p (refNameAt result c))))\<close>
proof -
  define a where "a = aTagStartAt result c"
  define e where "e = aTagOpenEndAt result c"
  define refName where "refName = refNameAt result c"
  define newTag where
    "newTag = newOpeningTag (openingTagAt result c) refName (resolveRefToUrl p refName)"
  from assms have conds: "a \<noteq> -1" "e \<noteq> -1" "refName \<noteq> []"
    and res: "r' = beforeTagAt result c @ newTag @ afterTagAt result c"
             "c' = a + int (length newTag)"
    unfolding patchStep_vars a_def e_def refName_def newTag_def
    by (auto split: if_splits)
  from findRev_found [OF a_def [unfolded aTagStartAt_def, symmetric] conds(1)]
  have a: "0 \<le> a" "a \<le> int (length result)" \<open>prefix ''<a'' (drop (nat a) result)\<close>
    by simp_all
  from find_found [OF e_def [unfolded aTagOpenEndAt_def findChar_def, folded a_def, symmetric]
      conds(2)]
  have e: "a \<le> e" "nat e + 1 \<le> length result" \<open>prefix ''>'' (drop (nat e) result)\<close>
    \<open>\<forall>j. nat a \<le> j \<and> j < nat e \<longrightarrow> \<not> prefix ''>'' (drop j result)\<close>
    by simp_all
  define pre where "pre = take (nat a) result"
  define body where "body = take (nat e - nat a) (drop (nat a) result)"
  define post where "post = drop (nat e + 1) result"
  from e(3) obtain zs where zs: \<open>drop (nat e) result = ''>'' @ zs\<close>
    by (auto simp: prefix_def)
  have "post = drop 1 (drop (nat e) result)" by (simp add: post_def)
  then have "post = zs" unfolding zs by simp
  with zs have ech: \<open>drop (nat e) result = ''>'' @ post\<close> by simp
  have ae: "nat a \<le> nat e" using a(1) e(1) by simp
  have "drop (nat a) result = body @ drop (nat e - nat a) (drop (nat a) result)"
    unfolding body_def by (rule append_take_drop_id [symmetric])
  also have "drop (nat e - nat a) (drop (nat a) result) = drop (nat e) result"
    using ae by simp
  finally have da: \<open>drop (nat a) result = body @ ''>'' @ post\<close> by (simp add: ech)
  have split: \<open>result = pre @ body @ ''>'' @ post\<close>
    unfolding da [symmetric] pre_def by simp
  have nb: \<open>CHR ''>'' \<notin> set body\<close>
    unfolding body_def using e(2,4) by (intro no_char_before) simp_all
  have lb: "length body = nat e - nat a"
    using e(2) ae by (simp add: body_def)
  have tag: \<open>openingTagAt result c = body @ ''>''\<close>
    using a(1) e(1) a(2) lb da
    by (simp add: openingTagAt_def a_def [symmetric] e_def [symmetric] mid_def
        nat_add_distrib nat_diff_distrib)
  have l: "beforeTagAt result c = pre"
    using a(1) by (simp add: beforeTagAt_def a_def [symmetric] left_def pre_def)
  have m: "afterTagAt result c = post"
    using a(1) e(1,2)
    by (simp add: afterTagAt_def e_def [symmetric] midFrom_def post_def nat_add_distrib)
  have lp: "int (length pre) = a" using a(1,2) by (simp add: pre_def)
  have sa: \<open>prefix ''<a'' body\<close>
    using a(3) unfolding da by (rule tag_starts_with_a)
  show ?thesis
    using that [OF tag _ sa nb] split conds(3) res
    unfolding l m newTag_def tag lp [symmetric] refName_def by simp
qed

section \<open>Termination of the patching loop\<close>

text \<open>
  An iteration that rewrites the buffer to itself and leaves the cursor where it was is
  repeated forever: the loop has no result.
\<close>

lemma patchLoop_stuck:
  assumes st: "patchStep p r c = Rewrite r c"
  shows "patchLoop p r c = None"
proof (rule ccontr)
  assume "patchLoop p r c \<noteq> None"
  then obtain y where y: "patchLoop p r c = Some y" by auto
  have "patchStep p r c \<noteq> Rewrite r c"
  proof (rule patchLoop.raw_induct
      [where P = "\<lambda>p r c y. patchStep p r c \<noteq> Rewrite r c", OF _ y])
    fix f p' r' c' y'
    assume IH: "\<And>p r c y. f p r c = Some y \<Longrightarrow> patchStep p r c \<noteq> Rewrite r c"
      and body: "(case patchStep p' r' c' of Break \<Rightarrow> Some r'
                  | Skip s \<Rightarrow> f p' r' s | Rewrite r2 s \<Rightarrow> f p' r2 s) = Some y'"
    show "patchStep p' r' c' \<noteq> Rewrite r' c'"
    proof
      assume eq: "patchStep p' r' c' = Rewrite r' c'"
      with body have "f p' r' c' = Some y'" by simp
      from IH [OF this] eq show False by simp
    qed
  qed
  with st show False by simp
qed

lemma bodyRef_first_step:
  "patchStep resolvingPatcher bodyRefBuffer 0 = Rewrite bodyRefBuffer 3"
  by code_simp

lemma bodyRef_later_steps:
  "patchStep resolvingPatcher bodyRefBuffer 3 = Rewrite bodyRefBuffer 3"
  by code_simp

text \<open>
  Claim C1 (the patching loop terminates for every input buffer, the iterations bounded by the
  buffer length): fails on the code. The buffer \<open>bodyRefBuffer\<close> has its placeholder after the opening tag \<^verbatim>\<open><a>\<close>. The first iteration finds the placeholder at
  offset 17, the anchor start at 0, the closing tag and the end of the opening tag at 2,
  extracts the name \<open>x\<close>, resolves it to \<open>foo.html\<close>, replaces the opening tag by itself (it holds no
  placeholder) and sets the cursor to \<open>0 + 3\<close>. Every later iteration starts at cursor 3,
  finds the same placeholder and ends in the same buffer and the same cursor: the loop
  never returns.
\<close>

theorem patchBareRefs_loops_forever:
  "patchBareRefs resolvingPatcher bodyRefBuffer = None"
  unfolding patchBareRefs_def
  by (subst patchLoop.simps)
     (simp add: bodyRef_first_step patchLoop_stuck [OF bodyRef_later_steps])

text \<open>The two iterations on \<open>captionRefBuffer\<close>: the first one, and every later one.\<close>

lemma captionRef_first_step:
  \<open>patchStep resolvingPatcher captionRefBuffer 0
     = Rewrite (''<a href="foo.html"><text>'' @ hrefRef @ ''</text></a>'') 19\<close>
  by code_simp

lemma captionRef_later_steps:
  \<open>patchStep resolvingPatcher (''<a href="foo.html"><text>'' @ hrefRef @ ''</text></a>'') 19
     = Rewrite (''<a href="foo.html"><text>'' @ hrefRef @ ''</text></a>'') 19\<close>
  by code_simp

text \<open>
  Claim C2 (for a buffer whose placeholders all lie inside well-formed anchors, the output of
  \<^verbatim>\<open>patchBareRefs\<close> holds no placeholder): fails on the code, by the same defect as
  C1. In \<open>captionRefBuffer\<close> both placeholders lie inside one well-formed anchor: a
  preceding \<^verbatim>\<open><a\<close>, an opening tag that ends before the closing tag, and a non-empty
  caption. The first iteration rewrites the opening tag to \<^verbatim>\<open><a href="foo.html">\<close> and moves
  the cursor to 19. Every later iteration finds the placeholder of the caption at offset
  25, takes the rewritten tag as its opening tag, replaces it by itself and sets the cursor
  to 19 again: there is no output, and the placeholder of the caption is never replaced.
\<close>

theorem patchBareRefs_caption_placeholder:
  "patchBareRefs resolvingPatcher captionRefBuffer = None"
  unfolding patchBareRefs_def
  by (subst patchLoop.simps)
     (simp only: captionRef_first_step iteration.case patchLoop_stuck [OF captionRef_later_steps])

section \<open>Finding the next placeholder\<close>

text \<open>The two spellings never start at the same offset.\<close>

lemma placeholders_never_tie:
  assumes "find result hrefRef c \<noteq> -1" "find result xlinkRef c \<noteq> -1"
  shows "find result hrefRef c \<noteq> find result xlinkRef c"
proof
  assume eq: "find result hrefRef c = find result xlinkRef c"
  from find_found [OF refl assms(1)] have "prefix hrefRef (drop (nat (find result hrefRef c)) result)"
    by simp
  moreover from find_found [OF refl assms(2)] eq
  have "prefix xlinkRef (drop (nat (find result hrefRef c)) result)" by simp
  ultimately show False
    by (cases "drop (nat (find result hrefRef c)) result") (simp_all add: hrefRef_def xlinkRef_def)
qed



section \<open>Escaping the reference name\<close>

text \<open>
  Claim C5: the name written into the onclick handler is escaped by doubling every
  backslash first and putting a backslash before every single quote second. The result is
  the name with each backslash replaced by two and each quote by backslash-quote, and the
  handler holds it between single quotes; \<^verbatim>\<open>a\b'c\<close> becomes \<^verbatim>\<open>a\\b\'c\<close>, and the
  other order of the two steps gives another result on this name.
\<close>

theorem escapeRefName_backslash_then_quote:
  \<open>escapeRefName refName =
     concat (map (\<lambda>c. if c = CHR 0x5C then [CHR 0x5C, CHR 0x5C]
                       else if c = CHR 0x27 then [CHR 0x5C, CHR 0x27]
                       else [c]) refName)
   \<and> onclickHandler refName =
       ''window.parent.postMessage({type:'' @ [CHR 0x27] @ ''unresolved-ref'' @ [CHR 0x27]
       @ '',name:'' @ [CHR 0x27]
       @ concat (map (\<lambda>c. if c = CHR 0x5C then [CHR 0x5C, CHR 0x5C]
                           else if c = CHR 0x27 then [CHR 0x5C, CHR 0x27]
                           else [c]) refName)
       @ [CHR 0x27] @ ''},'' @ [CHR 0x27] @ ''*'' @ [CHR 0x27] @ '');return false;''
   \<and> escapeRefName (''a'' @ [CHR 0x5C] @ ''b'' @ [CHR 0x27] @ ''c'')
       = ''a'' @ [CHR 0x5C, CHR 0x5C] @ ''b'' @ [CHR 0x5C, CHR 0x27] @ ''c''
   \<and> substitute (substitute (''a'' @ [CHR 0x5C] @ ''b'' @ [CHR 0x27] @ ''c'')
          [CHR 0x27] [CHR 0x5C, CHR 0x27]) [CHR 0x5C] [CHR 0x5C, CHR 0x5C]
       \<noteq> escapeRefName (''a'' @ [CHR 0x5C] @ ''b'' @ [CHR 0x27] @ ''c'')\<close>
proof -
  have general: "escapeRefName n =
     concat (map (\<lambda>c. if c = CHR 0x5C then [CHR 0x5C, CHR 0x5C]
                       else if c = CHR 0x27 then [CHR 0x5C, CHR 0x27]
                       else [c]) n)" for n
    unfolding escapeRefName_def substitute_single_char
    by (induction n) simp_all
  show ?thesis
  proof (intro conjI)
    show \<open>onclickHandler refName =
       ''window.parent.postMessage({type:'' @ [CHR 0x27] @ ''unresolved-ref'' @ [CHR 0x27]
       @ '',name:'' @ [CHR 0x27]
       @ concat (map (\<lambda>c. if c = CHR 0x5C then [CHR 0x5C, CHR 0x5C]
                           else if c = CHR 0x27 then [CHR 0x5C, CHR 0x27]
                           else [c]) refName)
       @ [CHR 0x27] @ ''},'' @ [CHR 0x27] @ ''*'' @ [CHR 0x27] @ '');return false;''\<close>
      unfolding onclickHandler_def general ..
  qed (rule general, simp_all add: general substitute_single_char)
qed

section \<open>The run operation\<close>

text \<open>
  Claim C6: when the file opens for reading and its content holds neither spelling of the
  placeholder, \<^verbatim>\<open>run\<close> succeeds and the file is what it was: nothing is patched and
  nothing is written. It succeeds also on a file that does not open for writing, which
  no write-back could do.
\<close>

theorem run_without_placeholder:
  assumes "opensForReading f" "\<not> sublist hrefRef (bytes f)" "\<not> sublist xlinkRef (bytes f)"
  shows "run p f = Some (True, f)"
  using assms hasHref_iff [of "bytes f"] hasXlinkHref_iff [of "bytes f"]
  by (simp add: run_def)

theorem run_without_placeholder_witness:
  "opensForReading \<lparr>opensForReading = True, opensForWriting = False, bytes = plainSvg\<rparr>
   \<and> \<not> sublist hrefRef plainSvg \<and> \<not> sublist xlinkRef plainSvg
   \<and> run resolvingPatcher \<lparr>opensForReading = True, opensForWriting = False, bytes = plainSvg\<rparr>
       = Some (True, \<lparr>opensForReading = True, opensForWriting = False, bytes = plainSvg\<rparr>)"
proof -
  have h: "\<not> sublist hrefRef plainSvg" by code_simp
  have x: "\<not> sublist xlinkRef plainSvg" by code_simp
  show ?thesis
    using h x run_without_placeholder
      [of "\<lparr>opensForReading = True, opensForWriting = False, bytes = plainSvg\<rparr>" resolvingPatcher]
    by simp
qed

text \<open>
  Claim C10: \<^verbatim>\<open>run\<close> returns failure exactly when the file does not open for reading, or
  when it holds a placeholder, the patching has returned and the file does not open for
  writing; whenever it returns failure the file is what it was.
\<close>

theorem run_fails_iff:
  "((\<exists>f'. run p f = Some (False, f')) \<longleftrightarrow>
      (\<not> opensForReading f
       \<or> ((sublist hrefRef (bytes f) \<or> sublist xlinkRef (bytes f))
           \<and> patchBareRefs p (bytes f) \<noteq> None \<and> \<not> opensForWriting f)))
   \<and> (\<forall>f'. run p f = Some (False, f') \<longrightarrow> f' = f)"
  using hasHref_iff [of "bytes f"] hasXlinkHref_iff [of "bytes f"]
  by (auto simp: run_def Let_def split: option.splits if_splits)


theorem run_fails_iff_witness:
  "run resolvingPatcher \<lparr>opensForReading = False, opensForWriting = True, bytes = fooAnchor\<rparr>
     = Some (False, \<lparr>opensForReading = False, opensForWriting = True, bytes = fooAnchor\<rparr>)
   \<and> run resolvingPatcher \<lparr>opensForReading = True, opensForWriting = False, bytes = fooAnchor\<rparr>
     = Some (False, \<lparr>opensForReading = True, opensForWriting = False, bytes = fooAnchor\<rparr>)"
proof -
  let ?u = "\<lparr>opensForReading = False, opensForWriting = True, bytes = fooAnchor\<rparr>"
  let ?w = "\<lparr>opensForReading = True, opensForWriting = False, bytes = fooAnchor\<rparr>"
  have h: "sublist hrefRef fooAnchor" by code_simp
  have pb: "patchBareRefs resolvingPatcher fooAnchor \<noteq> None" by code_simp
  from run_fails_iff [of resolvingPatcher ?u]
  have u: "run resolvingPatcher ?u = Some (False, ?u)" by auto
  from run_fails_iff [of resolvingPatcher ?w] h pb
  have w: "run resolvingPatcher ?w = Some (False, ?w)" by auto
  from u w show ?thesis by simp
qed

section \<open>The rewritten opening tag\<close>

text \<open>
  Claim C3: an iteration that rewrites an anchor whose name is unresolved (the resolver
  returns no URL, as it does for a descriptor with empty file and empty anchor) replaces the
  opening tag \<open>body @ ''>''\<close> of that anchor (as in spec 4.2, the text from \<^verbatim>\<open><a\<close> to the
  next \<^verbatim>\<open>>\<close>) by the tag in which every placeholder attribute is bound to \<^verbatim>\<open>#\<close> (a
  namespaced one keeps its \<^verbatim>\<open>xlink:\<close>), followed by one onclick attribute with the handler
  for the extracted name and the closing \<^verbatim>\<open>>\<close>; the buffer before and after the tag is
  kept. On the anchor \<^verbatim>\<open><a href="\ref"><text>foo</text></a>\<close> the whole output is the spec's
  text.
\<close>

theorem unresolved_anchor_shape:
  assumes "patchStep p result searchStart = Rewrite result' searchStart'"
    and "resolveRefToUrl p (refNameAt result searchStart) = []"
  shows \<open>(\<exists>body.
            openingTagAt result searchStart = body @ ''>'' \<and> CHR ''>'' \<notin> set body
          \<and> result = beforeTagAt result searchStart @ body @ ''>''
                       @ afterTagAt result searchStart
          \<and> result' = beforeTagAt result searchStart
                        @ substitute body hrefRef ''href="#"''
                        @ '' onclick="'' @ onclickHandler (refNameAt result searchStart) @ ''"''
                        @ ''>'' @ afterTagAt result searchStart)
       \<and> (\<forall>n df. createRef p n (m_context p) = Some df \<and> df_file df = [] \<and> df_anchor df = []
              \<longrightarrow> resolveRefToUrl p n = [])
       \<and> patchBareRefs unresolvingPatcher fooAnchor = Some fooUnresolved\<close>
proof (intro conjI)
  from assms(1) obtain body where
    1: \<open>openingTagAt result searchStart = body @ ''>''\<close>
       \<open>result = beforeTagAt result searchStart @ body @ ''>'' @ afterTagAt result searchStart\<close>
       \<open>CHR ''>'' \<notin> set body\<close>
    and r: \<open>result' = beforeTagAt result searchStart
          @ newOpeningTag (body @ ''>'') (refNameAt result searchStart)
              (resolveRefToUrl p (refNameAt result searchStart))
          @ afterTagAt result searchStart\<close>
    by (rule patchStep_Rewrite)
  have \<open>result' = beforeTagAt result searchStart
                        @ substitute body hrefRef ''href="#"''
                        @ '' onclick="'' @ onclickHandler (refNameAt result searchStart) @ ''"''
                        @ ''>'' @ afterTagAt result searchStart\<close>
    unfolding r assms(2) newOpeningTag_unresolved by simp
  with 1 show \<open>\<exists>body.
            openingTagAt result searchStart = body @ ''>'' \<and> CHR ''>'' \<notin> set body
          \<and> result = beforeTagAt result searchStart @ body @ ''>''
                       @ afterTagAt result searchStart
          \<and> result' = beforeTagAt result searchStart
                        @ substitute body hrefRef ''href="#"''
                        @ '' onclick="'' @ onclickHandler (refNameAt result searchStart) @ ''"''
                        @ ''>'' @ afterTagAt result searchStart\<close>
    by (intro exI conjI)
next
  show "\<forall>n df. createRef p n (m_context p) = Some df \<and> df_file df = [] \<and> df_anchor df = []
              \<longrightarrow> resolveRefToUrl p n = []"
    by (simp add: resolveRefToUrl_def)
next
  show "patchBareRefs unresolvingPatcher fooAnchor = Some fooUnresolved"
    by code_simp
qed

text \<open>The iteration on \<open>fooAnchor\<close>, and the anchor it handles.\<close>

lemma fooAnchor_unresolved_step:
  "patchStep unresolvingPatcher fooAnchor 0 = Rewrite fooUnresolved 102"
  by code_simp

lemma fooAnchor_vars:
  \<open>openingTagAt fooAnchor 0 = ''<a '' @ hrefRef @ ''>''\<close>
  \<open>refNameAt fooAnchor 0 = ''foo''\<close>
  \<open>beforeTagAt fooAnchor 0 = []\<close>
  \<open>afterTagAt fooAnchor 0 = ''<text>foo</text></a>''\<close>
  by code_simp+

theorem unresolved_anchor_shape_witness:
  \<open>patchStep unresolvingPatcher fooAnchor 0 = Rewrite fooUnresolved 102
   \<and> resolveRefToUrl unresolvingPatcher ''foo'' = []
   \<and> (\<exists>body. ''<a '' @ hrefRef @ ''>'' = body @ ''>''
         \<and> fooUnresolved = substitute body hrefRef ''href="#"''
                            @ '' onclick="'' @ onclickHandler ''foo'' @ ''"''
                            @ ''>'' @ ''<text>foo</text></a>'')
   \<and> patchBareRefs unresolvingPatcher fooAnchor = Some fooUnresolved\<close>
proof -
  have u: "resolveRefToUrl unresolvingPatcher (refNameAt fooAnchor 0) = []"
    by (rule resolveRefToUrl_none)
  note shape = unresolved_anchor_shape [OF fooAnchor_unresolved_step u, unfolded fooAnchor_vars]
  from shape [THEN conjunct1] obtain body where
    b: \<open>''<a '' @ hrefRef @ ''>'' = body @ ''>''\<close>
    and r: \<open>fooUnresolved = [] @ substitute body hrefRef ''href="#"''
                        @ '' onclick="'' @ onclickHandler ''foo'' @ ''"''
                        @ ''>'' @ ''<text>foo</text></a>''\<close>
    by (elim exE conjE) (rule that)
  from r have \<open>fooUnresolved = substitute body hrefRef ''href="#"''
                            @ '' onclick="'' @ onclickHandler ''foo'' @ ''"''
                            @ ''>'' @ ''<text>foo</text></a>''\<close>
    by (simp only: append_Nil)
  with b have \<open>\<exists>body. ''<a '' @ hrefRef @ ''>'' = body @ ''>''
         \<and> fooUnresolved = substitute body hrefRef ''href="#"''
                            @ '' onclick="'' @ onclickHandler ''foo'' @ ''"''
                            @ ''>'' @ ''<text>foo</text></a>''\<close>
    by (intro exI conjI)
  with fooAnchor_unresolved_step resolveRefToUrl_none [of "''foo''"]
    shape [THEN conjunct2, THEN conjunct2]
  show ?thesis by (intro conjI)
qed






section \<open>Two placeholders in one tag\<close>











section \<open>No partial rewrite\<close>

lemma patchLoop_diverges:
  assumes inv: "I r c"
    and step: "\<And>r c. I r c \<Longrightarrow> \<exists>r' c'. patchStep p r c = Rewrite r' c' \<and> I r' c'"
  shows "patchLoop p r c = None"
proof (rule ccontr)
  assume "patchLoop p r c \<noteq> None"
  then obtain y where y: "patchLoop p r c = Some y" by auto
  have "p = p \<longrightarrow> \<not> I r c"
  proof (rule patchLoop.raw_induct [where P = "\<lambda>q r c y. q = p \<longrightarrow> \<not> I r c", OF _ y])
    fix f q r1 c1 y1
    assume IH: "\<And>q r c y. f q r c = Some y \<Longrightarrow> q = p \<longrightarrow> \<not> I r c"
      and body: "(case patchStep q r1 c1 of Break \<Rightarrow> Some r1
                  | Skip s \<Rightarrow> f q r1 s | Rewrite r2 s \<Rightarrow> f q r2 s) = Some y1"
    show "q = p \<longrightarrow> \<not> I r1 c1"
    proof (intro impI notI)
      assume q: "q = p" and i: "I r1 c1"
      from step [OF i] obtain r2 c2 where
        s: "patchStep p r1 c1 = Rewrite r2 c2" and i2: "I r2 c2" by blast
      from body s q have "f q r2 c2 = Some y1" by simp
      from IH [OF this] q i2 show False by simp
    qed
  qed
  with inv show False by simp
qed

lemma findRevFrom_first:
  assumes "prefix str s" and "\<And>j. 0 < j \<Longrightarrow> j \<le> n \<Longrightarrow> \<not> prefix str (drop j s)"
  shows "findRevFrom s str n = 0"
  using assms(2) by (induction n) (simp_all add: assms(1))

lemma strstr_first_char:
  "c \<notin> set b \<Longrightarrow> strstr (b @ c # t) [c] = Some (length b)"
  by (induction b) auto

lemma bodyRefRest_facts:
  "length bodyRefRest = 29"
  "strstr bodyRefRest hrefRef = Some 14"
  "strstr bodyRefRest xlinkRef = None"
  "strstr (drop 14 bodyRefRest) ''</a>'' = Some 11"
  "extractRefNameFromAnchorContent (take 25 bodyRefRest) = ''x''"
  "\<forall>k \<in> set (upt 0 15). \<not> prefix ''<a'' (drop k bodyRefRest)"
  by code_simp+

lemma xOnclick_chars:
  \<open>CHR ''<'' \<notin> set xOnclick\<close> \<open>CHR ''>'' \<notin> set xOnclick\<close> \<open>CHR ''h'' \<notin> set xOnclick\<close>
  by code_simp+

lemma unresolved_bodyRef_iteration:
  assumes good: \<open>prefix ''<a'' b\<close> \<open>CHR ''<'' \<notin> set (tl b)\<close> \<open>CHR ''>'' \<notin> set b\<close>
    \<open>CHR ''h'' \<notin> set b\<close>
  shows \<open>openingTagAt (b @ ''>'' @ bodyRefRest) (int (length b) + 1) = b @ ''>''
         \<and> patchStep unresolvingPatcher (b @ ''>'' @ bodyRefRest) (int (length b) + 1)
           = Rewrite ((b @ xOnclick) @ ''>'' @ bodyRefRest) (int (length (b @ xOnclick)) + 1)\<close>
proof -
  define s where \<open>s = b @ ''>'' @ bodyRefRest\<close>
  define n where "n = length b"
  have len: "length s = n + 30"
    by (simp add: s_def n_def bodyRefRest_facts(1))
  have d1: "drop (Suc n) s = bodyRefRest"
    by (simp add: s_def n_def)
  have d15: "drop (n + 15) s = drop 14 bodyRefRest"
    by (simp add: s_def n_def)
  have ref: "nextRefPos s (int n + 1) = int n + 15"
    using len d1
    by (simp add: nextRefPos_def find_def selectRefPos_def nat_add_distrib bodyRefRest_facts(2,3))
  have nat15: "nat (int n + 15) = n + 15" by simp
  have start: "aTagStartAt s (int n + 1) = 0"
  proof -
    have p0: \<open>prefix ''<a'' s\<close> using good(1) by (simp add: s_def)
    have none: \<open>\<not> prefix ''<a'' (drop j s)\<close> if "0 < j" "j \<le> n + 15" for j
    proof (cases "j \<le> n")
      case True
      then have dj: \<open>drop j s = drop j b @ ''>'' @ bodyRefRest\<close>
        by (simp add: s_def n_def)
      show ?thesis
      proof
        assume \<open>prefix ''<a'' (drop j s)\<close>
        then have \<open>drop j b \<noteq> [] \<and> hd (drop j b) = CHR ''<''\<close>
          unfolding dj by (cases "drop j b") auto
        then have \<open>CHR ''<'' \<in> set (drop j b)\<close> by (metis hd_in_set)
        moreover have "set (drop j b) \<subseteq> set (drop 1 b)"
          using that(1) by (intro set_drop_subset_set_drop) simp
        ultimately show False using good(2) by (auto simp: drop_Suc)
      qed
    next
      case False
      then have \<open>drop j s = drop (j - Suc n) bodyRefRest\<close>
        by (simp add: s_def n_def drop_Cons')
      moreover from False that(2) have "j - Suc n \<in> set (upt 0 15)" by auto
      ultimately show ?thesis using bodyRefRest_facts(6) by simp
    qed
    have "findRevFrom s ''<a'' (n + 15) = 0"
      using p0 none by (rule findRevFrom_first)
    then show ?thesis
      unfolding aTagStartAt_def ref findRev_def Let_def using len by (simp add: nat15)
  qed
  have close: "aTagCloseAt s (int n + 1) = int n + 26"
    unfolding aTagCloseAt_def ref using len d15
    by (simp add: find_def nat15 bodyRefRest_facts(4))
  have openEnd: "aTagOpenEndAt s (int n + 1) = int n"
    unfolding aTagOpenEndAt_def start findChar_def using len strstr_first_char [OF good(3), of bodyRefRest]
    by (simp add: find_def s_def n_def)
  have tag: \<open>openingTagAt s (int n + 1) = b @ ''>''\<close>
    unfolding openingTagAt_def start openEnd using len
    by (simp add: mid_def s_def n_def nat_add_distrib)
  have content: "anchorContentAt s (int n + 1) = take 25 bodyRefRest"
    unfolding anchorContentAt_def close openEnd using len d1
    by (simp add: mid_def nat_add_distrib)
  have name: "refNameAt s (int n + 1) = ''x''"
    unfolding refNameAt_def content by (rule bodyRefRest_facts(5))
  have before: "beforeTagAt s (int n + 1) = []"
    unfolding beforeTagAt_def start by (simp add: left_def)
  have after: "afterTagAt s (int n + 1) = bodyRefRest"
    unfolding afterTagAt_def openEnd using len d1 by (simp add: midFrom_def nat_add_distrib)
  have noh: "\<not> sublist hrefRef b"
  proof
    assume "sublist hrefRef b"
    then have "set hrefRef \<subseteq> set b" by (rule set_mono_sublist)
    with good(4) show False by (auto simp: hrefRef_def)
  qed
  have new: \<open>newOpeningTag (b @ ''>'') ''x'' [] = (b @ xOnclick) @ ''>''\<close>
    unfolding newOpeningTag_unresolved substitute_absent [OF noh] xOnclick_def by simp
  have \<open>patchStep unresolvingPatcher s (int n + 1)
           = Rewrite ((b @ xOnclick) @ ''>'' @ bodyRefRest) (int (length (b @ xOnclick)) + 1)\<close>
    unfolding patchStep_vars ref start close openEnd tag name before after
      resolveRefToUrl_none new
    by simp
  with tag show ?thesis
    unfolding s_def n_def by (rule conjI)
qed

lemma unresolved_bodyRef_step:
  assumes \<open>prefix ''<a'' b\<close> \<open>CHR ''<'' \<notin> set (tl b)\<close> \<open>CHR ''>'' \<notin> set b\<close>
    \<open>CHR ''h'' \<notin> set b\<close>
  shows \<open>patchStep unresolvingPatcher (b @ ''>'' @ bodyRefRest) (int (length b) + 1)
           = Rewrite ((b @ xOnclick) @ ''>'' @ bodyRefRest) (int (length (b @ xOnclick)) + 1)\<close>
  using unresolved_bodyRef_iteration [OF assms] by (rule conjunct2)

lemma onceRewritten_shape:
  \<open>onceRewritten = (''<a'' @ xOnclick) @ ''>'' @ bodyRefRest\<close>
  \<open>(91 :: int) = int (length (''<a'' @ xOnclick)) + 1\<close>
  \<open>prefix ''<a'' (''<a'' @ xOnclick)\<close>
  \<open>CHR ''<'' \<notin> set (tl (''<a'' @ xOnclick))\<close>
  \<open>CHR ''>'' \<notin> set (''<a'' @ xOnclick)\<close>
  \<open>CHR ''h'' \<notin> set (''<a'' @ xOnclick)\<close>
  by code_simp+

lemma bodyRef_unresolved_first_step:
  "patchStep unresolvingPatcher bodyRefBuffer 0 = Rewrite onceRewritten 91"
  by code_simp

lemma onceRewritten_diverges:
  "patchLoop unresolvingPatcher onceRewritten 91 = None"
proof (rule patchLoop_diverges [where I = "\<lambda>r c. \<exists>b. r = b @ ''>'' @ bodyRefRest
      \<and> c = int (length b) + 1 \<and> prefix ''<a'' b \<and> CHR ''<'' \<notin> set (tl b)
      \<and> CHR ''>'' \<notin> set b \<and> CHR ''h'' \<notin> set b"])
  show \<open>\<exists>b. onceRewritten = b @ ''>'' @ bodyRefRest
      \<and> 91 = int (length b) + 1 \<and> prefix ''<a'' b \<and> CHR ''<'' \<notin> set (tl b)
      \<and> CHR ''>'' \<notin> set b \<and> CHR ''h'' \<notin> set b\<close>
    using onceRewritten_shape by (intro exI [of _ \<open>''<a'' @ xOnclick\<close>] conjI)
next
  fix r c
  assume \<open>\<exists>b. r = b @ ''>'' @ bodyRefRest
      \<and> c = int (length b) + 1 \<and> prefix ''<a'' b \<and> CHR ''<'' \<notin> set (tl b)
      \<and> CHR ''>'' \<notin> set b \<and> CHR ''h'' \<notin> set b\<close>
  then obtain b where r: \<open>r = b @ ''>'' @ bodyRefRest\<close> and c: "c = int (length b) + 1"
    and good: \<open>prefix ''<a'' b\<close> \<open>CHR ''<'' \<notin> set (tl b)\<close>
      \<open>CHR ''>'' \<notin> set b\<close> \<open>CHR ''h'' \<notin> set b\<close>
    by (elim exE conjE) (rule that)
  from good(1) have ne: "b \<noteq> []" by auto
  have step: \<open>patchStep unresolvingPatcher r c
      = Rewrite ((b @ xOnclick) @ ''>'' @ bodyRefRest) (int (length (b @ xOnclick)) + 1)\<close>
    unfolding r c by (rule unresolved_bodyRef_step [OF good])
  have p: \<open>prefix ''<a'' (b @ xOnclick)\<close>
    using good(1) by (rule prefix_prefix)
  have t: \<open>CHR ''<'' \<notin> set (tl (b @ xOnclick))\<close>
    using ne good(2) xOnclick_chars(1) by simp
  have g: \<open>CHR ''>'' \<notin> set (b @ xOnclick)\<close>
    using good(3) xOnclick_chars(2) by simp
  have h: \<open>CHR ''h'' \<notin> set (b @ xOnclick)\<close>
    using good(4) xOnclick_chars(3) by simp
  show \<open>\<exists>r' c'. patchStep unresolvingPatcher r c = Rewrite r' c'
      \<and> (\<exists>b. r' = b @ ''>'' @ bodyRefRest
      \<and> c' = int (length b) + 1 \<and> prefix ''<a'' b \<and> CHR ''<'' \<notin> set (tl b)
      \<and> CHR ''>'' \<notin> set b \<and> CHR ''h'' \<notin> set b)\<close>
    using step p t g h by (intro exI conjI) (assumption | rule refl)+
qed

lemma bodyRef_unresolved_second_step:
  "patchStep unresolvingPatcher onceRewritten 91 = Rewrite twiceRewritten 179"
  by code_simp

lemma twiceRewritten_shape:
  \<open>twiceRewritten = (''<a'' @ xOnclick @ xOnclick) @ ''>'' @ bodyRefRest\<close>
  \<open>(179 :: int) = int (length (''<a'' @ xOnclick @ xOnclick)) + 1\<close>
  \<open>prefix ''<a'' (''<a'' @ xOnclick @ xOnclick)\<close>
  \<open>CHR ''<'' \<notin> set (tl (''<a'' @ xOnclick @ xOnclick))\<close>
  \<open>CHR ''>'' \<notin> set (''<a'' @ xOnclick @ xOnclick)\<close>
  \<open>CHR ''h'' \<notin> set (''<a'' @ xOnclick @ xOnclick)\<close>
  \<open>twiceRewrittenTag = (''<a'' @ xOnclick @ xOnclick) @ ''>''\<close>
  by code_simp+

lemma bodyRef_tags:
  \<open>openingTagAt bodyRefBuffer 0 = ''<a>''\<close>
  \<open>openingTagAt twiceRewritten 179 = twiceRewrittenTag\<close>
proof -
  show \<open>openingTagAt bodyRefBuffer 0 = ''<a>''\<close>
    by code_simp
  show \<open>openingTagAt twiceRewritten 179 = twiceRewrittenTag\<close>
    unfolding twiceRewritten_shape(1,2,7)
    using unresolved_bodyRef_iteration [OF twiceRewritten_shape(3-6)] by (rule conjunct1)
qed

lemma twiceRewrittenTag_no_shape:
  \<open>twiceRewrittenTag \<noteq> ''<a>''\<close>
  \<open>twiceRewrittenTag \<noteq> newOpeningTag ''<a>'' (refNameAt bodyRefBuffer 0) []\<close>
  \<open>twiceRewrittenTag \<noteq> newOpeningTag ''<a>'' (refNameAt bodyRefBuffer 0) ''foo.html''\<close>
  by code_simp+

lemma bodyRef_unresolved_diverges:
  "patchBareRefs unresolvingPatcher bodyRefBuffer = None"
proof -
  have "patchLoop unresolvingPatcher bodyRefBuffer 0 = patchLoop unresolvingPatcher onceRewritten 91"
    by (subst patchLoop.simps) (simp only: bodyRef_unresolved_first_step iteration.case)
  then show ?thesis
    unfolding patchBareRefs_def onceRewritten_diverges .
qed

text \<open>
  Claim C9 (every opening tag is, in the output, either rewritten to one of the two exact
  shapes or left untouched; no opening tag is ever rewritten in part or altered in another
  way): fails on the code. The buffer \<open>bodyRefBuffer\<close> has its placeholder after the opening tag
  \<^verbatim>\<open><a>\<close>, and its name \<open>x\<close> is unresolved. The first iteration finds the placeholder at
  offset 17 and the anchor start at 0, adds the onclick attribute to \<^verbatim>\<open><a>\<close> and sets the
  cursor to the end of the new opening tag, 91, which is before the placeholder. The second
  iteration finds the same placeholder and the same anchor and adds a second onclick
  attribute to the opening tag, which now is neither the tag of the input nor that tag in
  the unresolved shape (one onclick attribute) nor in a resolved shape. Every later
  iteration adds one more (lemma \<open>unresolved_bodyRef_step\<close>), and the loop never returns, so
  there is no output at all.
\<close>

theorem opening_tag_rewritten_twice:
  \<open>patchStep unresolvingPatcher bodyRefBuffer 0 = Rewrite onceRewritten 91
   \<and> patchStep unresolvingPatcher onceRewritten 91 = Rewrite twiceRewritten 179
   \<and> openingTagAt bodyRefBuffer 0 = ''<a>''
   \<and> openingTagAt twiceRewritten 179 = twiceRewrittenTag
   \<and> twiceRewrittenTag \<noteq> ''<a>''
   \<and> twiceRewrittenTag \<noteq> newOpeningTag ''<a>'' (refNameAt bodyRefBuffer 0) []
   \<and> twiceRewrittenTag \<noteq> newOpeningTag ''<a>'' (refNameAt bodyRefBuffer 0) ''foo.html''
   \<and> patchBareRefs unresolvingPatcher bodyRefBuffer = None\<close>
  by (intro conjI bodyRef_unresolved_first_step bodyRef_unresolved_second_step bodyRef_tags
      twiceRewrittenTag_no_shape bodyRef_unresolved_diverges)

end
